theory Spec2Isabelle
  imports Main "HOL-Library.Word"
begin

unbundle bit_operations_syntax

section \<open>Python values used by the neurons\<close>

text \<open>
  Python integers are unbounded (\<open>int\<close>); a Python \<open>str\<close> is modelled as a \<open>string\<close>
  whose characters are the code points below 256 (the nonces and digests of this
  program are ASCII); \<open>bytes\<close> is a list of 8-bit words.
\<close>

type_synonym byte = "8 word"
type_synonym u32 = "32 word"

datatype py_error = ValueError | IndexError

subsection \<open>\<open>str(n)\<close> for an integer\<close>

definition digit_char :: "nat \<Rightarrow> char" where
  "digit_char d = char_of (48 + d)"

function str_nat :: "nat \<Rightarrow> string" where
  "str_nat n = (if n < 10 then [digit_char n] else str_nat (n div 10) @ [digit_char (n mod 10)])"
  by pat_completeness auto
termination
  by (relation "measure (\<lambda>n. n)") auto

definition str_int :: "int \<Rightarrow> string" where
  "str_int i = (if i < 0 then CHR ''-'' # str_nat (nat (- i)) else str_nat (nat i))"

subsection \<open>\<open>random.randint\<close>\<close>

text \<open>
  \<open>random.randint(a, b)\<close> is \<open>a + randbelow(b - a + 1)\<close>: an integer of the closed
  range from \<open>a\<close> to \<open>b\<close>. The generator is outside the program, so the raw entropy
  \<open>e\<close> it turns into \<open>randbelow\<close> is an argument: \<open>e mod n\<close> reaches every value
  below \<open>n\<close> and nothing else. (For an empty range Python raises; the only call of
  the program is \<open>randint(0, 10)\<close>.)
\<close>

definition randbelow :: "nat \<Rightarrow> nat \<Rightarrow> nat" where
  "randbelow n e = e mod n"

definition randint :: "int \<Rightarrow> int \<Rightarrow> nat \<Rightarrow> int" where
  "randint a b e = a + int (randbelow (nat (b - a + 1)) e)"

subsection \<open>\<open>str.encode()\<close>: UTF-8\<close>

definition utf8_char :: "char \<Rightarrow> byte list" where
  "utf8_char c =
     (let n = (of_char c :: nat)
      in if n < 128 then [of_nat n]
         else [of_nat (192 + n div 64), of_nat (128 + n mod 64)])"

definition encode :: "string \<Rightarrow> byte list" where
  "encode s = concat (map utf8_char s)"

subsection \<open>\<open>hashlib.sha256\<close> (FIPS 180-4)\<close>

text \<open>
  The constants of the standard are the first 32 bits of the fractional parts of the
  cube roots of the first 64 primes (section 4.2.2), and the initial hash value has
  those of the square roots of the first 8 primes (section 5.3.3). They are computed
  here from that description: \<open>root_bits k n b r\<close> is the largest \<open>x\<close> below
  \<open>r + 2 ^ b\<close> with \<open>x ^ k \<le> n\<close> (for \<open>r ^ k \<le> n\<close>), so that \<open>frac_root32 k p\<close>
  is the integer part of \<open>2 ^ 32\<close> times the \<open>k\<close>-th root of \<open>p\<close>, cut to 32 bits.
\<close>

definition primes_upto :: "int \<Rightarrow> int list" where
  "primes_upto n =
     foldl (\<lambda>ps c. if list_ex (\<lambda>p. c mod p = 0) ps then ps else ps @ [c]) [] [2..n]"

fun root_bits :: "nat \<Rightarrow> int \<Rightarrow> nat \<Rightarrow> int \<Rightarrow> int" where
  "root_bits k n 0 r = r"
| "root_bits k n (Suc b) r =
     (let r' = r + 2 ^ b in root_bits k n b (if r' ^ k \<le> n then r' else r))"

definition frac_root32 :: "nat \<Rightarrow> int \<Rightarrow> u32" where
  "frac_root32 k p = word_of_int (root_bits k (p * 2 ^ (32 * k)) 36 0)"

definition K256 :: "u32 list" where
  "K256 = map (frac_root32 3) (primes_upto 311)"

type_synonym hstate = "u32 \<times> u32 \<times> u32 \<times> u32 \<times> u32 \<times> u32 \<times> u32 \<times> u32"

definition H256 :: hstate where
  "H256 = (frac_root32 2 2, frac_root32 2 3, frac_root32 2 5, frac_root32 2 7,
           frac_root32 2 11, frac_root32 2 13, frac_root32 2 17, frac_root32 2 19)"

definition rotr :: "nat \<Rightarrow> u32 \<Rightarrow> u32" where
  "rotr n x = drop_bit n x OR push_bit (32 - n) x"

definition Ch :: "u32 \<Rightarrow> u32 \<Rightarrow> u32 \<Rightarrow> u32" where
  "Ch x y z = (x AND y) XOR (NOT x AND z)"

definition Maj :: "u32 \<Rightarrow> u32 \<Rightarrow> u32 \<Rightarrow> u32" where
  "Maj x y z = (x AND y) XOR (x AND z) XOR (y AND z)"

definition bsig0 :: "u32 \<Rightarrow> u32" where
  "bsig0 x = rotr 2 x XOR rotr 13 x XOR rotr 22 x"

definition bsig1 :: "u32 \<Rightarrow> u32" where
  "bsig1 x = rotr 6 x XOR rotr 11 x XOR rotr 25 x"

definition ssig0 :: "u32 \<Rightarrow> u32" where
  "ssig0 x = rotr 7 x XOR rotr 18 x XOR drop_bit 3 x"

definition ssig1 :: "u32 \<Rightarrow> u32" where
  "ssig1 x = rotr 17 x XOR rotr 19 x XOR drop_bit 10 x"

text \<open>
  Big-endian bytes of the 64-bit length field and of a word, and the word of four bytes.
\<close>

definition len_bytes :: "nat \<Rightarrow> byte list" where
  "len_bytes n =
     (let w = (of_nat n :: 64 word)
      in map (\<lambda>i. ucast (drop_bit (8 * (7 - i)) w)) [0..<8])"

definition word_bytes :: "u32 \<Rightarrow> byte list" where
  "word_bytes w = [ucast (drop_bit 24 w), ucast (drop_bit 16 w), ucast (drop_bit 8 w), ucast w]"

definition be_word :: "byte list \<Rightarrow> u32" where
  "be_word bs = foldl (\<lambda>acc b. push_bit 8 acc OR ucast b) 0 bs"

text \<open>
  Padding: the byte \<open>0x80\<close>, zero bytes up to 56 modulo 64, and the length of the
  message in bits as a 64-bit big-endian integer.
\<close>

definition pad :: "byte list \<Rightarrow> byte list" where
  "pad m = m @ [0x80] @ replicate ((64 - (length m + 9) mod 64) mod 64) 0
             @ len_bytes (8 * length m)"

function chunks :: "nat \<Rightarrow> 'a list \<Rightarrow> 'a list list" where
  "chunks n xs = (if n = 0 \<or> xs = [] then [] else take n xs # chunks n (drop n xs))"
  by pat_completeness auto
termination
  by (relation "measure (\<lambda>(n, xs). length xs)") auto

text \<open>The message schedule: sixteen words of the block, extended to sixty-four.\<close>

fun extend_sched :: "nat \<Rightarrow> u32 list \<Rightarrow> u32 list" where
  "extend_sched 0 w = w"
| "extend_sched (Suc n) w =
     (let t = length w
      in extend_sched n
           (w @ [ssig1 (w ! (t - 2)) + w ! (t - 7) + ssig0 (w ! (t - 15)) + w ! (t - 16)]))"

definition schedule :: "byte list \<Rightarrow> u32 list" where
  "schedule block = extend_sched 48 (map be_word (chunks 4 block))"

fun sha_round :: "u32 \<times> u32 \<Rightarrow> hstate \<Rightarrow> hstate" where
  "sha_round (k, w) (a, b, c, d, e, f, g, h) =
     (let t1 = h + bsig1 e + Ch e f g + k + w;
          t2 = bsig0 a + Maj a b c
      in (t1 + t2, a, b, c, d + t1, e, f, g))"

fun add_state :: "hstate \<Rightarrow> hstate \<Rightarrow> hstate" where
  "add_state (a, b, c, d, e, f, g, h) (a', b', c', d', e', f', g', h') =
     (a + a', b + b', c + c', d + d', e + e', f + f', g + g', h + h')"

definition compress :: "byte list \<Rightarrow> hstate \<Rightarrow> hstate" where
  "compress block hs = add_state hs (fold sha_round (zip K256 (schedule block)) hs)"

fun state_bytes :: "hstate \<Rightarrow> byte list" where
  "state_bytes (a, b, c, d, e, f, g, h) =
     word_bytes a @ word_bytes b @ word_bytes c @ word_bytes d @
     word_bytes e @ word_bytes f @ word_bytes g @ word_bytes h"

definition sha256 :: "byte list \<Rightarrow> byte list" where
  "sha256 m = state_bytes (fold compress (chunks 64 (pad m)) H256)"

subsection \<open>\<open>bytes.hex()\<close> and \<open>int(s, 16)\<close>\<close>

definition hex_digit :: "nat \<Rightarrow> char" where
  "hex_digit d = (if d < 10 then char_of (48 + d) else char_of (87 + d))"

definition hex_byte :: "byte \<Rightarrow> string" where
  "hex_byte b = [hex_digit (unat b div 16), hex_digit (unat b mod 16)]"

definition hex :: "byte list \<Rightarrow> string" where
  "hex bs = concat (map hex_byte bs)"

definition hex_val :: "char \<Rightarrow> nat option" where
  "hex_val c =
     (let n = (of_char c :: nat)
      in if 48 \<le> n \<and> n \<le> 57 then Some (n - 48)
         else if 97 \<le> n \<and> n \<le> 102 then Some (n - 87)
         else if 65 \<le> n \<and> n \<le> 70 then Some (n - 55)
         else None)"

text \<open>
  \<open>int(s, 16)\<close> on a string of hexadecimal digits; a string that is empty or has
  another character raises \<open>ValueError\<close>. (Python also reads a sign, a \<open>0x\<close> prefix,
  blanks around the literal and underscores between digits; \<open>bytes.hex()\<close> writes
  none of these, and they are left out here.)
\<close>

fun int16_digits :: "string \<Rightarrow> int \<Rightarrow> py_error + int" where
  "int16_digits [] acc = Inr acc"
| "int16_digits (c # cs) acc =
     (case hex_val c of
        None \<Rightarrow> Inl ValueError
      | Some d \<Rightarrow> int16_digits cs (16 * acc + int d))"

definition py_int16 :: "string \<Rightarrow> py_error + int" where
  "py_int16 s = (if s = [] then Inl ValueError else int16_digits s 0)"

section \<open>\<open>nonce_mining/utils/hashing.py\<close>\<close>

text \<open>\<open>gen_nonce\<close>: \<open>str(random.randint(0, 10))\<close>, with the entropy of the draw as argument.\<close>

definition gen_nonce :: "nat \<Rightarrow> string" where
  "gen_nonce e = str_int (randint 0 10 e)"

text \<open>\<open>gen_hash\<close>: \<open>sha256(nonce.encode()).digest().hex()\<close>.\<close>

definition gen_hash :: "string \<Rightarrow> string" where
  "gen_hash nonce = hex (sha256 (encode nonce))"

text \<open>
  The integer read big-endian from a byte string, \<open>int.from_bytes(bs, "big")\<close>: the
  meaning that the exchanged digest value is to have.
\<close>

definition be_int :: "byte list \<Rightarrow> int" where
  "be_int bs = foldl (\<lambda>acc b. 256 * acc + uint b) 0 bs"

section \<open>The source of randomness\<close>

text \<open>
  \<open>random\<close> is global state outside the program. The draws still to come are a
  sequence of raw entropy; a call of \<open>gen_nonce\<close> reads its head and leaves the rest.
  After \<open>k\<close> draws \<open>shift k src\<close> is left; \<open>always e\<close> is the source whose every
  draw is \<open>e\<close>.
\<close>

type_synonym entropy = "nat \<Rightarrow> nat"

definition rest :: "entropy \<Rightarrow> entropy" where
  "rest src = (\<lambda>i. src (Suc i))"

definition shift :: "nat \<Rightarrow> entropy \<Rightarrow> entropy" where
  "shift k src = (\<lambda>i. src (k + i))"

definition always :: "nat \<Rightarrow> entropy" where
  "always e = (\<lambda>i. e)"

section \<open>\<open>neurons/miner.py\<close>\<close>

text \<open>
  The \<open>Dummy\<close> synapse of \<open>nonce_mining.protocol\<close>, with the fields the neurons
  use: the round identifier \<open>block_id\<close>, the answer \<open>hash\<close> (\<open>None\<close> until a miner
  sets it) and the caller's hotkey \<open>synapse.dendrite.hotkey\<close>.
\<close>

record synapse =
  block_id :: int
  hash :: "int option"
  dendrite_hotkey :: string

text \<open>The attributes \<open>Miner.__init__\<close> sets.\<close>

record miner =
  nonces :: "string set"
  last_block_id :: "int option"
  extra_attempts :: int
  still_trying :: bool

definition Miner_init :: miner where
  "Miner_init = \<lparr>nonces = {}, last_block_id = None, extra_attempts = 10, still_trying = True\<rparr>"

text \<open>
  Lines 59 to 62 of \<open>Miner.forward\<close>: the state is reset when the block of the
  synapse is not the last one seen (\<open>None\<close> differs from every block).
\<close>

definition reset_round :: "miner \<Rightarrow> synapse \<Rightarrow> miner" where
  "reset_round self synapse =
     (if Some (block_id synapse) \<noteq> last_block_id self
      then self\<lparr>last_block_id := Some (block_id synapse), still_trying := True, nonces := {}\<rparr>
      else self)"

text \<open>
  Lines 71 to 77, the loop \<open>while nonce in self.nonces\<close>: \<open>nonce\<close> is the current
  draw and \<open>attempts\<close> the number of redraws so far. The result is the accepted
  nonce, or \<open>None\<close> when the loop gives up, and the entropy left.
\<close>

function redraw :: "string set \<Rightarrow> int \<Rightarrow> entropy \<Rightarrow> string \<Rightarrow> int \<Rightarrow> string option \<times> entropy" where
  "redraw tried extra src nonce attempts =
     (if nonce \<in> tried
      then if attempts + 1 > int (card tried) + extra
           then (None, rest src)
           else redraw tried extra (rest src) (gen_nonce (src 0)) (attempts + 1)
      else (Some nonce, src))"
  by pat_completeness auto
termination
  by (relation "measure (\<lambda>(tried, extra, src, nonce, attempts).
        nat (int (card tried) + extra + 1 - attempts))") auto

text \<open>Lines 69 to 77: the first draw, \<open>attempts = 0\<close>, and the loop.\<close>

definition search :: "miner \<Rightarrow> entropy \<Rightarrow> string option \<times> entropy" where
  "search self src = redraw (nonces self) (extra_attempts self) (rest src) (gen_nonce (src 0)) 0"

text \<open>
  \<open>Miner.forward\<close>. It returns the miner, the entropy left and the synapse; the
  \<open>ValueError\<close> of \<open>int(..., 16)\<close> is the only exception of its body.
\<close>

definition Miner_forward :: "miner \<Rightarrow> entropy \<Rightarrow> synapse \<Rightarrow> py_error + miner \<times> entropy \<times> synapse" where
  "Miner_forward self0 src synapse =
     (let self = reset_round self0 synapse
      in if \<not> still_trying self then Inr (self, src, synapse)
         else
           (case search self src of
              (None, src') \<Rightarrow> Inr (self\<lparr>still_trying := False\<rparr>, src', synapse)
            | (Some nonce, src') \<Rightarrow>
                (case py_int16 (gen_hash nonce) of
                   Inl e \<Rightarrow> Inl e
                 | Inr v \<Rightarrow>
                     Inr (self\<lparr>nonces := insert nonce (nonces self)\<rparr>, src',
                          synapse\<lparr>hash := Some v\<rparr>))))"

text \<open>A sequence of requests served one after the other, as the axon does.\<close>

fun Miner_run :: "miner \<Rightarrow> entropy \<Rightarrow> synapse list \<Rightarrow> py_error + miner \<times> entropy \<times> synapse list" where
  "Miner_run self src [] = Inr (self, src, [])"
| "Miner_run self src (s # ss) =
     (case Miner_forward self src s of
        Inl e \<Rightarrow> Inl e
      | Inr (self', src', s') \<Rightarrow>
          (case Miner_run self' src' ss of
             Inl e \<Rightarrow> Inl e
           | Inr (self'', src'', out) \<Rightarrow> Inr (self'', src'', s' # out)))"

text \<open>
  The nonce a request accepts (\<open>None\<close> when it returns no new guess), and the
  nonces accepted along a sequence of requests, in order.
\<close>

definition guess :: "miner \<Rightarrow> entropy \<Rightarrow> synapse \<Rightarrow> string option" where
  "guess self0 src synapse =
     (let self = reset_round self0 synapse
      in if \<not> still_trying self then None else fst (search self src))"

fun guesses :: "miner \<Rightarrow> entropy \<Rightarrow> synapse list \<Rightarrow> string list" where
  "guesses self src [] = []"
| "guesses self src (s # ss) =
     (case Miner_forward self src s of
        Inl e \<Rightarrow> []
      | Inr (self', src', s') \<Rightarrow>
          (case guess self src s of None \<Rightarrow> [] | Some c \<Rightarrow> [c]) @ guesses self' src' ss)"

subsection \<open>\<open>Miner.blacklist\<close>\<close>

record metagraph =
  hotkeys :: "string list"
  validator_permit :: "bool list"

record blacklist_config =
  allow_non_registered :: bool
  force_validator_permit :: bool

text \<open>\<open>list.index(x)\<close> raises \<open>ValueError\<close> when \<open>x\<close> is not in the list.\<close>

fun list_index :: "'a list \<Rightarrow> 'a \<Rightarrow> py_error + nat" where
  "list_index [] x = Inl ValueError"
| "list_index (y # ys) x =
     (if y = x then Inr 0
      else case list_index ys x of Inl e \<Rightarrow> Inl e | Inr i \<Rightarrow> Inr (Suc i))"

definition get_item :: "'a list \<Rightarrow> nat \<Rightarrow> py_error + 'a" where
  "get_item xs i = (if i < length xs then Inr (xs ! i) else Inl IndexError)"

definition Miner_blacklist :: "blacklist_config \<Rightarrow> metagraph \<Rightarrow> synapse \<Rightarrow> py_error + bool \<times> string" where
  "Miner_blacklist config mg synapse =
     (case list_index (hotkeys mg) (dendrite_hotkey synapse) of
        Inl e \<Rightarrow> Inl e
      | Inr uid \<Rightarrow>
          if \<not> allow_non_registered config \<and> dendrite_hotkey synapse \<notin> set (hotkeys mg)
          then Inr (True, ''Unrecognized hotkey'')
          else if force_validator_permit config
          then (case get_item (validator_permit mg) uid of
                  Inl e \<Rightarrow> Inl e
                | Inr permit \<Rightarrow>
                    if \<not> permit then Inr (True, ''Non-validator hotkey'')
                    else Inr (False, ''Hotkey recognized!''))
          else Inr (False, ''Hotkey recognized!''))"

section \<open>\<open>nonce_mining/validator/forward.py\<close> and \<open>neurons/validator.py\<close>\<close>

text \<open>
  The attributes \<open>Validator.__init__\<close> sets, the step counter of the base neuron, and
  in \<open>world\<close> everything else the neuron holds (metagraph, scores, configuration).
\<close>

record 'w validator =
  nonce_not_found :: bool
  nonce :: int
  last_block :: "int option"
  step :: int
  world :: 'w

text \<open>
  \<open>self.block\<close> is the chain's current block, read anew at each use: at the test of
  line 60, the assignment of line 64, the log of line 69 and in the synapse that
  \<open>forward.py\<close> sends (line 45).
\<close>

record block_reads =
  at_check :: int
  at_store :: int
  at_log :: int
  at_query :: int

text \<open>
  What \<open>forward.py\<close> calls and the repository's sources here do not hold: the choice
  of miners, the network client, the scoring and the update of the scores.
  \<open>get_rewards\<close> receives the validator and may change it.
\<close>

record ('w, 'r) collaborators =
  get_random_uids :: "'w validator \<Rightarrow> nat list"
  dendrite :: "'w validator \<Rightarrow> nat list \<Rightarrow> synapse \<Rightarrow> int option list"
  get_rewards :: "'w validator \<Rightarrow> int option list \<Rightarrow> 'r \<times> 'w validator"
  update_scores :: "'r \<Rightarrow> nat list \<Rightarrow> 'w validator \<Rightarrow> 'w validator"

text \<open>
  \<open>forward\<close> of \<open>forward.py\<close>. It returns the validator and the challenges it has
  sent: the miner queried and the synapse.
\<close>

definition forward :: "('w, 'r) collaborators \<Rightarrow> int \<Rightarrow> 'w validator \<Rightarrow> 'w validator \<times> (nat \<times> synapse) list" where
  "forward env blk self =
     (let miner_uids = get_random_uids env self;
          challenge = \<lparr>block_id = blk, hash = None, dendrite_hotkey = []\<rparr>;
          responses = dendrite env self miner_uids challenge;
          (rewards, self') = get_rewards env self responses
      in (update_scores env rewards miner_uids self', map (\<lambda>uid. (uid, challenge)) miner_uids))"

text \<open>Lines 60 to 65 of \<open>Validator.forward\<close>: a new nonce for a new block.\<close>

definition new_block :: "block_reads \<Rightarrow> entropy \<Rightarrow> 'w validator \<Rightarrow> py_error + 'w validator \<times> entropy" where
  "new_block blk src self =
     (if last_block self \<noteq> Some (at_check blk)
      then (case py_int16 (gen_hash (gen_nonce (src 0))) of
              Inl e \<Rightarrow> Inl e
            | Inr v \<Rightarrow>
                Inr (self\<lparr>nonce_not_found := True, nonce := v, last_block := Some (at_store blk)\<rparr>,
                     rest src))
      else Inr (self, src))"

definition Validator_forward ::
  "('w, 'r) collaborators \<Rightarrow> block_reads \<Rightarrow> entropy \<Rightarrow> 'w validator
     \<Rightarrow> py_error + 'w validator \<times> entropy \<times> (nat \<times> synapse) list" where
  "Validator_forward env blk src self0 =
     (case new_block blk src self0 of
        Inl e \<Rightarrow> Inl e
      | Inr (self, src') \<Rightarrow>
          if nonce_not_found self
          then (let (self', sent) = forward env (at_query blk) (self\<lparr>step := step self + 1\<rparr>)
                in Inr (self', src', sent))
          else Inr (self, src', []))"

fun Validator_run ::
  "('w, 'r) collaborators \<Rightarrow> block_reads list \<Rightarrow> entropy \<Rightarrow> 'w validator
     \<Rightarrow> py_error + 'w validator \<times> entropy \<times> (nat \<times> synapse) list" where
  "Validator_run env [] src self = Inr (self, src, [])"
| "Validator_run env (blk # blks) src self =
     (case Validator_forward env blk src self of
        Inl e \<Rightarrow> Inl e
      | Inr (self', src', sent) \<Rightarrow>
          (case Validator_run env blks src' self' of
             Inl e \<Rightarrow> Inl e
           | Inr (self'', src'', sent') \<Rightarrow> Inr (self'', src'', sent @ sent')))"

section \<open>Properties of the encoding\<close>

declare str_nat.simps [simp del]
declare chunks.simps [simp del]

lemma length_word_bytes: "length (word_bytes w) = 4"
  by (simp add: word_bytes_def)

lemma length_state_bytes: "length (state_bytes hs) = 32"
  by (induction hs rule: state_bytes.induct) (simp add: length_word_bytes)

lemma length_sha256: "length (sha256 m) = 32"
  by (simp add: sha256_def length_state_bytes)

lemma length_hex: "length (hex bs) = 2 * length bs"
  by (induction bs) (simp_all add: hex_def hex_byte_def)

lemma hex_val_hex_digit: "d < 16 \<Longrightarrow> hex_val (hex_digit d) = Some d"
  by (auto simp: hex_val_def hex_digit_def Let_def)

lemma int16_digits_append:
  "int16_digits (xs @ ys) acc =
     (case int16_digits xs acc of Inl e \<Rightarrow> Inl e | Inr v \<Rightarrow> int16_digits ys v)"
  by (induction xs arbitrary: acc) (auto split: option.splits)

lemma int16_digits_hex_byte: "int16_digits (hex_byte b) acc = Inr (256 * acc + uint b)"
proof -
  have hi: "unat b div 16 < 16"
    using unsigned_less [of b, where ?'a = nat] by (simp add: less_mult_imp_div_less)
  have lo: "unat b mod 16 < 16" by simp
  have "int (unat b div 16) * 16 + int (unat b mod 16) = int (unat b)"
    by (metis div_mult_mod_eq of_nat_add of_nat_mult of_nat_numeral)
  then have "16 * (16 * acc + int (unat b div 16)) + int (unat b mod 16) = 256 * acc + uint b"
    by (simp add: algebra_simps)
  then show ?thesis
    using hi lo by (simp add: hex_byte_def hex_val_hex_digit del: of_nat_div of_nat_mod)
qed

lemma int16_digits_hex:
  "int16_digits (hex bs) acc = Inr (foldl (\<lambda>a b. 256 * a + uint b) acc bs)"
proof (induction bs arbitrary: acc)
  case Nil
  show ?case by (simp add: hex_def)
next
  case (Cons b bs)
  have "hex (b # bs) = hex_byte b @ hex bs" by (simp add: hex_def)
  then show ?case
    by (simp only: int16_digits_append int16_digits_hex_byte Cons.IH sum.case foldl_Cons)
qed

lemma py_int16_hex: "bs \<noteq> [] \<Longrightarrow> py_int16 (hex bs) = Inr (be_int bs)"
proof -
  assume "bs \<noteq> []"
  then have "hex bs \<noteq> []" using length_hex [of bs] by (cases bs) auto
  then show ?thesis by (simp add: py_int16_def int16_digits_hex be_int_def)
qed

lemma digest_value: "py_int16 (gen_hash c) = Inr (be_int (sha256 (encode c)))"
proof -
  have "sha256 (encode c) \<noteq> []" using length_sha256 [of "encode c"] by auto
  then show ?thesis by (simp add: gen_hash_def py_int16_hex)
qed

lemma hex_digit_set: "d < 16 \<Longrightarrow> hex_digit d \<in> set ''0123456789abcdef''"
proof -
  have "list_all (\<lambda>d. hex_digit d \<in> set ''0123456789abcdef'') [0..<16]"
    by code_simp
  then show "d < 16 \<Longrightarrow> hex_digit d \<in> set ''0123456789abcdef''"
    by (simp add: list_all_iff)
qed

lemma set_hex: "set (hex bs) \<subseteq> set ''0123456789abcdef''"
proof -
  define S where "S = set ''0123456789abcdef''"
  have "set (hex_byte b) \<subseteq> S" for b
  proof -
    have "unat b div 16 < 16"
      using unsigned_less [of b, where ?'a = nat] by (simp add: less_mult_imp_div_less)
    then have hi: "hex_digit (unat b div 16) \<in> S"
      unfolding S_def by (rule hex_digit_set)
    have "unat b mod 16 < 16" by simp
    then have lo: "hex_digit (unat b mod 16) \<in> S"
      unfolding S_def by (rule hex_digit_set)
    from hi lo show ?thesis by (simp add: hex_byte_def)
  qed
  then have "set (hex bs) \<subseteq> S" by (auto simp: hex_def)
  then show ?thesis by (simp only: S_def)
qed

lemma str_nat_small: "n < 10 \<Longrightarrow> str_nat n = [digit_char n]"
  by (subst str_nat.simps) simp

lemma gen_nonce_eq: "gen_nonce e = str_nat (e mod 11)"
  by (simp add: gen_nonce_def randint_def randbelow_def str_int_def)

lemma str_nat_values:
  "map str_nat [0, 1, 2, 3, 4, 5, 6, 7, 8, 9] = map (\<lambda>d. [d]) ''0123456789'' \<and>
   str_nat 10 = ''10''"
  by code_simp

section \<open>Properties of the search loop\<close>

declare redraw.simps [simp del]

lemma shift_0: "shift 0 src = src"
  by (simp add: shift_def)

lemma shift_rest: "shift k (rest src) = shift (Suc k) src"
  by (simp add: shift_def rest_def)

lemma rest_eq_shift: "rest src = shift 1 src"
  by (simp add: shift_def rest_def)

lemma rest_always: "rest (always e) = always e"
  by (simp add: rest_def always_def)

lemma shift_always: "shift k (always e) = always e"
  by (simp add: shift_def always_def)

lemma redraw_fresh: "cur \<notin> tried \<Longrightarrow> redraw tried extra src cur a = (Some cur, src)"
  by (subst redraw.simps) simp

lemma redraw_Some_fresh: "redraw tried extra src cur a = (Some c, src') \<Longrightarrow> c \<notin> tried"
proof (induction tried extra src cur a rule: redraw.induct)
  case (1 tried extra src cur attempts)
  show ?case
  proof (cases "cur \<in> tried")
    case True
    with "1.prems" have le: "\<not> attempts + 1 > int (card tried) + extra"
      by (subst (asm) redraw.simps) (auto split: if_splits)
    with True "1.prems"
    have "redraw tried extra (rest src) (gen_nonce (src 0)) (attempts + 1) = (Some c, src')"
      by (subst (asm) redraw.simps) simp
    with "1.IH" [OF True le] show ?thesis .
  next
    case False
    with "1.prems" show ?thesis by (simp add: redraw_fresh)
  qed
qed

lemma redraw_None_dup: "redraw tried extra src cur a = (None, src') \<Longrightarrow> cur \<in> tried"
  by (rule ccontr) (simp add: redraw_fresh)

lemma redraw_gives_up_aux:
  "cur \<in> tried \<Longrightarrow> int (card tried) + extra - a = int n \<Longrightarrow>
   (\<forall>i<n. gen_nonce (src i) \<in> tried) \<Longrightarrow>
   redraw tried extra src cur a = (None, shift (Suc n) src)"
proof (induction n arbitrary: src cur a)
  case 0
  then show ?case
    by (subst redraw.simps) (simp add: rest_eq_shift)
next
  case (Suc n)
  have dup0: "gen_nonce (src 0) \<in> tried" using Suc.prems(3) by simp
  have next_a: "int (card tried) + extra - (a + 1) = int n" using Suc.prems(2) by simp
  have dups: "\<forall>i<n. gen_nonce (rest src i) \<in> tried"
    using Suc.prems(3) by (simp add: rest_def)
  have "redraw tried extra (rest src) (gen_nonce (src 0)) (a + 1) = (None, shift (Suc n) (rest src))"
    by (rule Suc.IH [OF dup0 next_a dups])
  moreover have "\<not> a + 1 > int (card tried) + extra" using Suc.prems(2) by simp
  ultimately show ?case
    using Suc.prems(1) by (subst redraw.simps) (simp add: shift_rest)
qed

lemma redraw_draws:
  "redraw tried extra src cur a = (r, src') \<Longrightarrow>
   \<exists>k. k \<le> max 1 (nat (int (card tried) + extra + 1 - a)) \<and> src' = shift k src"
proof (induction tried extra src cur a rule: redraw.induct)
  case (1 tried extra src cur attempts)
  show ?case
  proof (cases "cur \<in> tried")
    case False
    with "1.prems" have "src' = shift 0 src" by (simp add: redraw_fresh shift_0)
    then show ?thesis by (intro exI [of _ 0]) simp
  next
    case True
    show ?thesis
    proof (cases "attempts + 1 > int (card tried) + extra")
      case True
      with \<open>cur \<in> tried\<close> "1.prems" have "src' = shift 1 src"
        by (subst (asm) redraw.simps) (simp add: rest_eq_shift)
      then show ?thesis by (intro exI [of _ 1]) simp
    next
      case False
      with \<open>cur \<in> tried\<close> "1.prems"
      have "redraw tried extra (rest src) (gen_nonce (src 0)) (attempts + 1) = (r, src')"
        by (subst (asm) redraw.simps) simp
      from "1.IH" [OF \<open>cur \<in> tried\<close> False this]
      obtain k where k: "k \<le> max 1 (nat (int (card tried) + extra + 1 - (attempts + 1)))"
        and s: "src' = shift k (rest src)" by blast
      from k False have "Suc k \<le> max 1 (nat (int (card tried) + extra + 1 - attempts))"
        by simp
      with s show ?thesis by (intro exI [of _ "Suc k"]) (simp add: shift_rest)
    qed
  qed
qed

lemma search_empty: "nonces self = {} \<Longrightarrow> search self src = (Some (gen_nonce (src 0)), rest src)"
  by (simp add: search_def redraw_fresh)

lemma search_Some_fresh: "search self src = (Some c, src') \<Longrightarrow> c \<notin> nonces self"
  unfolding search_def by (rule redraw_Some_fresh)

lemma search_None_nonempty: "search self src = (None, src') \<Longrightarrow> nonces self \<noteq> {}"
  unfolding search_def using redraw_None_dup by fastforce

lemma search_gives_up:
  assumes "0 \<le> extra_attempts self"
    and "\<forall>i \<le> card (nonces self) + nat (extra_attempts self). gen_nonce (src i) \<in> nonces self"
  shows "search self src =
           (None, shift (card (nonces self) + nat (extra_attempts self) + 2) src)"
proof -
  let ?n = "card (nonces self) + nat (extra_attempts self)"
  have d0: "gen_nonce (src 0) \<in> nonces self" using assms(2) by simp
  have n: "int (card (nonces self)) + extra_attempts self - 0 = int ?n"
    using assms(1) by simp
  have ds: "\<forall>i<?n. gen_nonce (rest src i) \<in> nonces self"
    using assms(2) by (simp add: rest_def)
  have "redraw (nonces self) (extra_attempts self) (rest src) (gen_nonce (src 0)) 0 =
          (None, shift (Suc ?n) (rest src))"
    by (rule redraw_gives_up_aux [OF d0 n ds])
  then show ?thesis by (simp add: search_def shift_rest)
qed

lemma search_draws:
  assumes "0 \<le> extra_attempts self" and "search self src = (r, src')"
  shows "\<exists>k. 1 \<le> k \<and> k \<le> card (nonces self) + nat (extra_attempts self) + 2 \<and> src' = shift k src"
proof -
  from assms(2) obtain k where
    k: "k \<le> max 1 (nat (int (card (nonces self)) + extra_attempts self + 1 - 0))"
    and s: "src' = shift k (rest src)"
    unfolding search_def using redraw_draws by blast
  from k assms(1) have "Suc k \<le> card (nonces self) + nat (extra_attempts self) + 2"
    by simp
  with s show ?thesis by (intro exI [of _ "Suc k"]) (simp add: shift_rest)
qed

section \<open>Properties of \<open>Miner.forward\<close>\<close>

lemma reset_round_idem: "reset_round (reset_round m syn) syn = reset_round m syn"
  by (simp add: reset_round_def)

lemma reset_round_same: "last_block_id m = Some (block_id syn) \<Longrightarrow> reset_round m syn = m"
  by (simp add: reset_round_def)

lemma reset_round_new:
  "Some (block_id syn) \<noteq> last_block_id m \<Longrightarrow>
   reset_round m syn = m\<lparr>last_block_id := Some (block_id syn), still_trying := True, nonces := {}\<rparr>"
  by (simp add: reset_round_def)

lemma last_block_id_reset: "last_block_id (reset_round m syn) = Some (block_id syn)"
  by (simp add: reset_round_def)

lemma extra_attempts_reset: "extra_attempts (reset_round m syn) = extra_attempts m"
  by (simp add: reset_round_def)

lemma Miner_forward_reset: "Miner_forward (reset_round m syn) src syn = Miner_forward m src syn"
  by (simp add: Miner_forward_def reset_round_idem)

lemma guess_reset: "guess (reset_round m syn) src syn = guess m src syn"
  by (simp add: guess_def reset_round_idem)

lemma Miner_forward_stopped:
  "\<not> still_trying (reset_round m syn) \<Longrightarrow> Miner_forward m src syn = Inr (reset_round m syn, src, syn)"
  by (simp add: Miner_forward_def)

lemma Miner_forward_gave_up:
  "still_trying (reset_round m syn) \<Longrightarrow> search (reset_round m syn) src = (None, src') \<Longrightarrow>
   Miner_forward m src syn = Inr ((reset_round m syn)\<lparr>still_trying := False\<rparr>, src', syn)"
  by (simp add: Miner_forward_def)

lemma Miner_forward_found:
  "still_trying (reset_round m syn) \<Longrightarrow> search (reset_round m syn) src = (Some c, src') \<Longrightarrow>
   Miner_forward m src syn =
     Inr ((reset_round m syn)\<lparr>nonces := insert c (nonces (reset_round m syn))\<rparr>, src',
          syn\<lparr>hash := Some (be_int (sha256 (encode c)))\<rparr>)"
  by (simp add: Miner_forward_def digest_value Let_def)

lemma gave_up_no_reset:
  assumes "search (reset_round m syn) src = (None, src')"
  shows "reset_round m syn = m"
proof -
  from assms have "nonces (reset_round m syn) \<noteq> {}" by (rule search_None_nonempty)
  then show ?thesis by (auto simp: reset_round_def split: if_splits)
qed

lemma Miner_run_stopped:
  "\<not> still_trying m \<Longrightarrow> last_block_id m = Some b \<Longrightarrow> \<forall>s\<in>set ss. block_id s = b \<Longrightarrow>
   Miner_run m src ss = Inr (m, src, ss)"
proof (induction ss)
  case Nil
  show ?case by simp
next
  case (Cons s ss)
  then have r: "reset_round m s = m" by (simp add: reset_round_same)
  with Cons.prems(1) have "Miner_forward m src s = Inr (m, src, s)"
    using Miner_forward_stopped [of m s src] by simp
  with Cons show ?case by simp
qed

lemma guesses_round:
  "last_block_id m = Some b \<Longrightarrow> \<forall>s\<in>set ss. block_id s = b \<Longrightarrow>
   \<exists>m' src' out. Miner_run m src ss = Inr (m', src', out) \<and>
     distinct (guesses m src ss) \<and> set (guesses m src ss) \<inter> nonces m = {} \<and>
     nonces m' = nonces m \<union> set (guesses m src ss)"
proof (induction ss arbitrary: m src)
  case Nil
  show ?case by simp
next
  case (Cons s ss)
  then have r: "reset_round m s = m" by (simp add: reset_round_same)
  have rest_ok: "\<forall>x\<in>set ss. block_id x = b" using Cons.prems(2) by simp
  show ?case
  proof (cases "still_trying m")
    case False
    with r have f: "Miner_forward m src s = Inr (m, src, s)"
      using Miner_forward_stopped [of m s src] by simp
    from False r have g: "guess m src s = None" by (simp add: guess_def)
    from Cons.IH [OF Cons.prems(1) rest_ok, of src] f g show ?thesis by auto
  next
    case True
    obtain res src1 where sr: "search m src = (res, src1)" by (cases "search m src")
    show ?thesis
    proof (cases res)
      case None
      let ?m1 = "m\<lparr>still_trying := False\<rparr>"
      from True r sr None have f: "Miner_forward m src s = Inr (?m1, src1, s)"
        using Miner_forward_gave_up [of m s src src1] by simp
      from True r sr None have g: "guess m src s = None" by (simp add: guess_def)
      have lb: "last_block_id ?m1 = Some b" using Cons.prems(1) by simp
      from Cons.IH [OF lb rest_ok, of src1] f g show ?thesis by auto
    next
      case (Some c)
      let ?m1 = "m\<lparr>nonces := insert c (nonces m)\<rparr>"
      let ?s1 = "s\<lparr>hash := Some (be_int (sha256 (encode c)))\<rparr>"
      from True r sr Some have f: "Miner_forward m src s = Inr (?m1, src1, ?s1)"
        using Miner_forward_found [of m s src c src1] by simp
      from True r sr Some have g: "guess m src s = Some c" by (simp add: guess_def)
      from sr Some have fresh: "c \<notin> nonces m" using search_Some_fresh by simp
      have lb: "last_block_id ?m1 = Some b" using Cons.prems(1) by simp
      from Cons.IH [OF lb rest_ok, of src1] obtain m' src' out where
        run: "Miner_run ?m1 src1 ss = Inr (m', src', out)"
        and d: "distinct (guesses ?m1 src1 ss)"
        and i: "set (guesses ?m1 src1 ss) \<inter> nonces ?m1 = {}"
        and n: "nonces m' = nonces ?m1 \<union> set (guesses ?m1 src1 ss)" by blast
      have gs: "guesses m src (s # ss) = c # guesses ?m1 src1 ss" using f g by simp
      have "Miner_run m src (s # ss) = Inr (m', src', ?s1 # out)" using f run by simp
      moreover have "distinct (guesses m src (s # ss))" using gs d i by auto
      moreover have "set (guesses m src (s # ss)) \<inter> nonces m = {}" using gs i fresh by auto
      moreover have "nonces m' = nonces m \<union> set (guesses m src (s # ss))" using gs n by auto
      ultimately show ?thesis by blast
    qed
  qed
qed

lemma Miner_run_reset: "Miner_run (reset_round m s) src (s # ss) = Miner_run m src (s # ss)"
  by (simp add: Miner_forward_reset)

lemma guesses_reset: "guesses (reset_round m s) src (s # ss) = guesses m src (s # ss)"
  by (simp add: Miner_forward_reset guess_reset split: sum.splits)

lemma Miner_forward_step:
  "\<exists>m' src'. 
     (guess m src syn = None \<and> nonces m' = nonces (reset_round m syn) \<and>
      Miner_forward m src syn = Inr (m', src', syn)) \<or>
     (\<exists>c. guess m src syn = Some c \<and> c \<notin> nonces (reset_round m syn) \<and>
       nonces m' = insert c (nonces (reset_round m syn)) \<and>
       Miner_forward m src syn = Inr (m', src', syn\<lparr>hash := Some (be_int (sha256 (encode c)))\<rparr>))"
proof (cases "still_trying (reset_round m syn)")
  case False
  then show ?thesis using Miner_forward_stopped [of m syn src] by (auto simp: guess_def)
next
  case True
  obtain res src1 where sr: "search (reset_round m syn) src = (res, src1)"
    by (cases "search (reset_round m syn) src")
  show ?thesis
  proof (cases res)
    case None
    with True sr show ?thesis
      using Miner_forward_gave_up [of m syn src src1] by (auto simp: guess_def)
  next
    case (Some c)
    with sr have "c \<notin> nonces (reset_round m syn)" using search_Some_fresh by simp
    with True sr Some show ?thesis
      using Miner_forward_found [of m syn src c src1] by (auto simp: guess_def)
  qed
qed

text \<open>\<open>Miner.forward\<close> raises no exception: the digest is always a hexadecimal literal.\<close>

lemma Miner_forward_no_error: "Miner_forward m src syn \<noteq> Inl e"
  using Miner_forward_step [of m src syn] by auto

section \<open>The claims on the hashing utilities and the blacklist\<close>

lemma gen_nonce_4: "gen_nonce 4 = ''4''" by code_simp
lemma gen_nonce_7: "gen_nonce 7 = ''7''" by code_simp
lemma gen_nonce_10: "gen_nonce 10 = ''10''" by code_simp

lemma str_int_int: "str_int (int n) = str_nat n"
  by (simp add: str_int_def)

lemma range_mod_11: "range (\<lambda>e::nat. e mod 11) = {0..<11}"
proof
  show "range (\<lambda>e::nat. e mod 11) \<subseteq> {0..<11}" by auto
  show "{0..<11} \<subseteq> range (\<lambda>e::nat. e mod 11)"
  proof
    fix n :: nat assume "n \<in> {0..<11}"
    then have "n = n mod 11" by simp
    then show "n \<in> range (\<lambda>e::nat. e mod 11)" by (rule range_eqI)
  qed
qed

lemma range_gen_nonce: "range gen_nonce = str_nat ` {0..<11}"
proof -
  have "gen_nonce = str_nat \<circ> (\<lambda>e. e mod 11)" by (rule ext) (simp add: gen_nonce_eq)
  then have "range gen_nonce = str_nat ` range (\<lambda>e::nat. e mod 11)"
    by (simp only: image_comp)
  then show ?thesis by (simp only: range_mod_11)
qed

lemma int_interval: "{0..10::int} = int ` {0..<11}"
proof
  show "{0..10::int} \<subseteq> int ` {0..<11}"
  proof
    fix i :: int assume "i \<in> {0..10}"
    then have "i = int (nat i)" and "nat i \<in> {0..<11}" by auto
    then show "i \<in> int ` {0..<11}" by (rule image_eqI)
  qed
  show "int ` {0..<11} \<subseteq> {0..10::int}" by auto
qed

lemma str_nat_image:
  "str_nat ` {0..<11} = (\<lambda>d. [d]) ` set ''0123456789'' \<union> {''10''}"
proof -
  have "{0..<11::nat} = set [0, 1, 2, 3, 4, 5, 6, 7, 8, 9] \<union> {10}" by code_simp
  then have "str_nat ` {0..<11} = set (map str_nat [0, 1, 2, 3, 4, 5, 6, 7, 8, 9]) \<union> {str_nat 10}"
    by (simp only: set_map image_Un image_insert image_empty)
  then show ?thesis by (simp only: str_nat_values set_map)
qed

text \<open>
  Claim C7, as amended. \<open>gen_nonce\<close> returns the decimal string of an integer of the
  closed range from 0 to 10: the ten one-digit strings and the string \<open>10\<close>, each of
  which some draw returns.
\<close>

theorem gen_nonce_range:
  "range gen_nonce = str_int ` {0..10} \<and>
   str_int ` {0..10} = (\<lambda>d. [d]) ` set ''0123456789'' \<union> {''10''}"
proof -
  have "str_int ` {0..10} = str_nat ` {0..<11}"
    by (simp only: int_interval image_image str_int_int)
  then show ?thesis by (simp only: range_gen_nonce str_nat_image)
qed

text \<open>
  Claim C7 as stated has every nonce among the one-digit strings \<open>0\<close> to \<open>9\<close>;
  \<open>randint(0, 10)\<close> includes its upper bound, and the draw 10 gives the string \<open>10\<close>.
\<close>

theorem gen_nonce_ten:
  "gen_nonce 10 = ''10'' \<and> gen_nonce 10 \<notin> (\<lambda>d. [d]) ` set ''0123456789''"
  by (auto simp: gen_nonce_10)

text \<open>
  Known answers: the published SHA-256 values of the eleven candidates and of the
  standard's example \<open>abc\<close>, computed by the model.
\<close>

lemma sha256_of_0:
  "gen_hash ''0'' = ''5feceb66ffc86f38d952786c6d696c79c2dbc239dd4e91b46729d73a27fb57e9''"
  by code_simp

lemma sha256_of_1:
  "gen_hash ''1'' = ''6b86b273ff34fce19d6b804eff5a3f5747ada4eaa22f1d49c01e52ddb7875b4b''"
  by code_simp

lemma sha256_of_2:
  "gen_hash ''2'' = ''d4735e3a265e16eee03f59718b9b5d03019c07d8b6c51f90da3a666eec13ab35''"
  by code_simp

lemma sha256_of_3:
  "gen_hash ''3'' = ''4e07408562bedb8b60ce05c1decfe3ad16b72230967de01f640b7e4729b49fce''"
  by code_simp

lemma sha256_of_4:
  "gen_hash ''4'' = ''4b227777d4dd1fc61c6f884f48641d02b4d121d3fd328cb08b5531fcacdabf8a''"
  by code_simp

lemma sha256_of_5:
  "gen_hash ''5'' = ''ef2d127de37b942baad06145e54b0c619a1f22327b2ebbcfbec78f5564afe39d''"
  by code_simp

lemma sha256_of_6:
  "gen_hash ''6'' = ''e7f6c011776e8db7cd330b54174fd76f7d0216b612387a5ffcfb81e6f0919683''"
  by code_simp

lemma sha256_known_answer:
  "gen_hash ''7'' = ''7902699be42c8a8e46fbbb4501726517e86b22c56a189f7625a6da49081b2451''"
  by code_simp

lemma sha256_of_8:
  "gen_hash ''8'' = ''2c624232cdd221771294dfbb310aca000a0df6ac8b66b696d90ef06fdefb64a3''"
  by code_simp

lemma sha256_of_9:
  "gen_hash ''9'' = ''19581e27de7ced00ff1ce50b2047e7a567c76b1cbaebabe5ef03f7c3017bb5b7''"
  by code_simp

lemma sha256_of_10:
  "gen_hash ''10'' = ''4a44dc15364204a80fe80e9039455cc1608281820fe2b24f1e5233ade6af1dd5''"
  by code_simp

lemma sha256_of_abc:
  "gen_hash ''abc'' = ''ba7816bf8f01cfea414140de5dae2223b00361a396177a9cb410ff61f20015ad''"
  by code_simp

lemma digest_value_7:
  "py_int16 (gen_hash ''7'') =
     Inr 54734117258892461880478870895348100103198302433611928089023761078319507514449"
  unfolding sha256_known_answer by code_simp

lemma str_int_candidates:
  "map str_int [0..10] = map (\<lambda>d. [d]) ''0123456789'' @ [''10'']"
  by code_simp

lemma gen_hash_candidates:
  "map (\<lambda>n. gen_hash (str_int n)) [0..10] =
     [''5feceb66ffc86f38d952786c6d696c79c2dbc239dd4e91b46729d73a27fb57e9'',
      ''6b86b273ff34fce19d6b804eff5a3f5747ada4eaa22f1d49c01e52ddb7875b4b'',
      ''d4735e3a265e16eee03f59718b9b5d03019c07d8b6c51f90da3a666eec13ab35'',
      ''4e07408562bedb8b60ce05c1decfe3ad16b72230967de01f640b7e4729b49fce'',
      ''4b227777d4dd1fc61c6f884f48641d02b4d121d3fd328cb08b5531fcacdabf8a'',
      ''ef2d127de37b942baad06145e54b0c619a1f22327b2ebbcfbec78f5564afe39d'',
      ''e7f6c011776e8db7cd330b54174fd76f7d0216b612387a5ffcfb81e6f0919683'',
      ''7902699be42c8a8e46fbbb4501726517e86b22c56a189f7625a6da49081b2451'',
      ''2c624232cdd221771294dfbb310aca000a0df6ac8b66b696d90ef06fdefb64a3'',
      ''19581e27de7ced00ff1ce50b2047e7a567c76b1cbaebabe5ef03f7c3017bb5b7'',
      ''4a44dc15364204a80fe80e9039455cc1608281820fe2b24f1e5233ade6af1dd5'']"
proof -
  have "map (\<lambda>n. gen_hash (str_int n)) [0..10] = map gen_hash (map str_int [0..10])"
    by (simp only: map_map comp_def)
  then show ?thesis
    by (simp only: str_int_candidates map_append list.map append.simps
        sha256_of_0 sha256_of_1 sha256_of_2 sha256_of_3 sha256_of_4 sha256_of_5 sha256_of_6 sha256_known_answer sha256_of_8 sha256_of_9 sha256_of_10)
qed

text \<open>
  Claim C9. \<open>gen_hash\<close> is a function of the candidate alone: no state and no
  randomness enter it, and a second call with the same candidate gives the same
  digest. Its value is the hexadecimal rendering of the SHA-256 hash of the encoded
  string, which is 32 bytes long: 64 characters, each a lower-case hexadecimal digit.
  For each of the eleven candidates, from 0 to 10, it is the published SHA-256 value
  of the candidate's decimal string.
\<close>

theorem gen_hash_is_sha256_hex:
  "gen_hash c = hex (sha256 (encode c)) \<and> length (sha256 (encode c)) = 32 \<and>
   length (gen_hash c) = 64 \<and> set (gen_hash c) \<subseteq> set ''0123456789abcdef'' \<and>
   (\<forall>c'. c' = c \<longrightarrow> gen_hash c' = gen_hash c) \<and>
   map (\<lambda>n. gen_hash (str_int n)) [0..10] =
     [''5feceb66ffc86f38d952786c6d696c79c2dbc239dd4e91b46729d73a27fb57e9'',
      ''6b86b273ff34fce19d6b804eff5a3f5747ada4eaa22f1d49c01e52ddb7875b4b'',
      ''d4735e3a265e16eee03f59718b9b5d03019c07d8b6c51f90da3a666eec13ab35'',
      ''4e07408562bedb8b60ce05c1decfe3ad16b72230967de01f640b7e4729b49fce'',
      ''4b227777d4dd1fc61c6f884f48641d02b4d121d3fd328cb08b5531fcacdabf8a'',
      ''ef2d127de37b942baad06145e54b0c619a1f22327b2ebbcfbec78f5564afe39d'',
      ''e7f6c011776e8db7cd330b54174fd76f7d0216b612387a5ffcfb81e6f0919683'',
      ''7902699be42c8a8e46fbbb4501726517e86b22c56a189f7625a6da49081b2451'',
      ''2c624232cdd221771294dfbb310aca000a0df6ac8b66b696d90ef06fdefb64a3'',
      ''19581e27de7ced00ff1ce50b2047e7a567c76b1cbaebabe5ef03f7c3017bb5b7'',
      ''4a44dc15364204a80fe80e9039455cc1608281820fe2b24f1e5233ade6af1dd5'']"
proof -
  have "gen_hash c = hex (sha256 (encode c))" by (simp only: gen_hash_def)
  moreover have "length (sha256 (encode c)) = 32" by (rule length_sha256)
  moreover have "length (gen_hash c) = 64"
    by (simp add: gen_hash_def length_hex length_sha256)
  moreover have "set (gen_hash c) \<subseteq> set ''0123456789abcdef''"
    unfolding gen_hash_def by (rule set_hex)
  moreover have "\<forall>c'. c' = c \<longrightarrow> gen_hash c' = gen_hash c" by simp
  ultimately show ?thesis using gen_hash_candidates by (intro conjI)
qed

theorem gen_hash_is_sha256_hex_witness:
  "str_int 7 = ''7'' \<and> gen_hash (str_int 7) = gen_hash ''7'' \<and>
   length (gen_hash ''7'') = 64 \<and>
   gen_hash ''7'' = ''7902699be42c8a8e46fbbb4501726517e86b22c56a189f7625a6da49081b2451''"
proof -
  have s: "str_int 7 = ''7''" by code_simp
  from gen_hash_is_sha256_hex [of "''7''"]
  have d: "\<forall>c'. c' = ''7'' \<longrightarrow> gen_hash c' = gen_hash ''7''"
    and l: "length (gen_hash ''7'') = 64" by blast+
  from d s have "gen_hash (str_int 7) = gen_hash ''7''" by blast
  with s l sha256_known_answer show ?thesis by (intro conjI)
qed

lemma list_index_Inr: "list_index xs x = Inr i \<Longrightarrow> x \<in> set xs"
  by (induction xs arbitrary: i) (auto split: if_splits sum.splits)

lemma list_index_notin: "x \<notin> set xs \<Longrightarrow> list_index xs x = Inl ValueError"
  by (induction xs) auto

lemma blacklist_unregistered_raises:
  "dendrite_hotkey syn \<notin> set (hotkeys mg) \<Longrightarrow> Miner_blacklist cfg mg syn = Inl ValueError"
  by (simp add: Miner_blacklist_def list_index_notin)

lemma blacklist_never_unrecognized:
  "Miner_blacklist cfg mg syn \<noteq> Inr (True, ''Unrecognized hotkey'')"
  by (auto simp: Miner_blacklist_def dest: list_index_Inr split: sum.splits)

text \<open>
  Claim C8 expects a caller whose hotkey is not registered to be rejected with
  \<open>(True, reason)\<close> and without an exception. \<open>Miner.blacklist\<close> first looks the
  hotkey up with \<open>list.index\<close> (line 107), which raises \<open>ValueError\<close> for such a
  caller: the rejection of lines 108 to 116 is never reached.
\<close>

theorem blacklist_unregistered_caller:
  "Miner_blacklist \<lparr>allow_non_registered = False, force_validator_permit = False\<rparr>
     \<lparr>hotkeys = [''alice''], validator_permit = [True]\<rparr>
     \<lparr>block_id = 5, hash = None, dendrite_hotkey = ''mallory''\<rparr> = Inl ValueError"
  by (simp add: blacklist_unregistered_raises)

section \<open>The claims on the miner and the validator\<close>

text \<open>
  Claim C1. A search step of a miner that is still trying, with a slack that is not
  negative (it is 10), returns, after at least one draw and at most
  \<open>len(nonces) + extra_attempts + 2\<close> draws. If the draws are in \<open>nonces\<close> more than
  \<open>len(nonces) + extra_attempts\<close> times in a row, no reset has taken place, the miner
  stops trying, nothing else of it changes and the synapse is returned as it came;
  from then on every request of that block leaves the miner and the synapse as they
  are, whatever the draws.
\<close>

theorem miner_search_exhausts:
  assumes "still_trying (reset_round m syn)" and "0 \<le> extra_attempts m"
  shows "(\<exists>m' k syn'. Miner_forward m src syn = Inr (m', shift k src, syn') \<and>
            1 \<le> k \<and> k \<le> card (nonces (reset_round m syn)) + nat (extra_attempts m) + 2) \<and>
         ((\<forall>i \<le> card (nonces (reset_round m syn)) + nat (extra_attempts m).
              gen_nonce (src i) \<in> nonces (reset_round m syn)) \<longrightarrow>
            reset_round m syn = m \<and>
            Miner_forward m src syn =
              Inr (m\<lparr>still_trying := False\<rparr>,
                   shift (card (nonces m) + nat (extra_attempts m) + 2) src, syn) \<and>
            (\<forall>ss src2. (\<forall>s\<in>set ss. block_id s = block_id syn) \<longrightarrow>
               Miner_run (m\<lparr>still_trying := False\<rparr>) src2 ss =
                 Inr (m\<lparr>still_trying := False\<rparr>, src2, ss)))"
proof (intro conjI impI)
  let ?r = "reset_round m syn"
  have e: "0 \<le> extra_attempts ?r" using assms(2) by (simp add: extra_attempts_reset)
  obtain res src1 where sr: "search ?r src = (res, src1)" by (cases "search ?r src")
  from search_draws [OF e sr] obtain k where
    k: "1 \<le> k" "k \<le> card (nonces ?r) + nat (extra_attempts m) + 2" and s1: "src1 = shift k src"
    by (auto simp: extra_attempts_reset)
  show "\<exists>m' k syn'. Miner_forward m src syn = Inr (m', shift k src, syn') \<and>
          1 \<le> k \<and> k \<le> card (nonces ?r) + nat (extra_attempts m) + 2"
  proof (cases res)
    case None
    with assms(1) sr s1 have "Miner_forward m src syn = Inr (?r\<lparr>still_trying := False\<rparr>, shift k src, syn)"
      using Miner_forward_gave_up [of m syn src src1] by simp
    with k show ?thesis by blast
  next
    case (Some c)
    with assms(1) sr s1 have "Miner_forward m src syn =
        Inr (?r\<lparr>nonces := insert c (nonces ?r)\<rparr>, shift k src,
             syn\<lparr>hash := Some (be_int (sha256 (encode c)))\<rparr>)"
      using Miner_forward_found [of m syn src c src1] by simp
    with k show ?thesis by blast
  qed
next
  let ?r = "reset_round m syn"
  assume dups: "\<forall>i \<le> card (nonces ?r) + nat (extra_attempts m). gen_nonce (src i) \<in> nonces ?r"
  have e: "0 \<le> extra_attempts ?r" using assms(2) by (simp add: extra_attempts_reset)
  have g: "search ?r src = (None, shift (card (nonces ?r) + nat (extra_attempts ?r) + 2) src)"
    using dups by (intro search_gives_up [OF e]) (simp add: extra_attempts_reset)
  then show same: "?r = m" by (rule gave_up_no_reset)
  from assms(1) g show "Miner_forward m src syn =
      Inr (m\<lparr>still_trying := False\<rparr>, shift (card (nonces m) + nat (extra_attempts m) + 2) src, syn)"
    using Miner_forward_gave_up [of m syn src] by (simp add: same)
  have lb: "last_block_id (m\<lparr>still_trying := False\<rparr>) = Some (block_id syn)"
    using last_block_id_reset [of m syn] by (simp add: same)
  show "\<forall>ss src2. (\<forall>s\<in>set ss. block_id s = block_id syn) \<longrightarrow>
          Miner_run (m\<lparr>still_trying := False\<rparr>) src2 ss = Inr (m\<lparr>still_trying := False\<rparr>, src2, ss)"
    using Miner_run_stopped [OF _ lb] by simp
qed

text \<open>
  Claim C10. When the loop of a search step gives up, the set of nonces is the one at
  the entry of the loop, which is the one at the entry of \<open>forward\<close> (there was no
  reset); the synapse is returned unchanged, and of the miner only \<open>still_trying\<close>
  changes, to \<open>False\<close>.
\<close>

theorem exhaustion_frame:
  assumes "still_trying (reset_round m syn)"
    and "search (reset_round m syn) src = (None, src')"
  shows "reset_round m syn = m \<and>
         Miner_forward m src syn = Inr (m\<lparr>still_trying := False\<rparr>, src', syn)"
proof -
  from assms(2) have same: "reset_round m syn = m" by (rule gave_up_no_reset)
  with assms show ?thesis using Miner_forward_gave_up [of m syn src src'] by simp
qed

lemma Miner_forward_new_round:
  assumes "Some (block_id syn) \<noteq> last_block_id m"
  shows "Miner_forward m src syn =
           Inr (m\<lparr>last_block_id := Some (block_id syn), still_trying := True,
                   nonces := {gen_nonce (src 0)}\<rparr>, rest src,
                syn\<lparr>hash := Some (be_int (sha256 (encode (gen_nonce (src 0)))))\<rparr>)"
proof -
  let ?r = "m\<lparr>last_block_id := Some (block_id syn), still_trying := True, nonces := {}\<rparr>"
  have r: "reset_round m syn = ?r" using assms by (rule reset_round_new)
  have s: "search ?r src = (Some (gen_nonce (src 0)), rest src)" by (simp add: search_empty)
  show ?thesis using Miner_forward_found [of m syn src "gen_nonce (src 0)" "rest src"] s
    by (simp add: r)
qed

lemma new_block_new:
  "last_block v \<noteq> Some (at_check blk) \<Longrightarrow>
   new_block blk src v =
     Inr (v\<lparr>nonce_not_found := True, nonce := be_int (sha256 (encode (gen_nonce (src 0)))),
            last_block := Some (at_store blk)\<rparr>, rest src)"
  by (simp add: new_block_def digest_value)

lemma new_block_same: "last_block v = Some (at_check blk) \<Longrightarrow> new_block blk src v = Inr (v, src)"
  by (simp add: new_block_def)

lemma Validator_forward_found:
  "\<not> nonce_not_found v \<Longrightarrow> last_block v = Some (at_check blk) \<Longrightarrow>
   Validator_forward env blk src v = Inr (v, src, [])"
  by (simp add: Validator_forward_def new_block_same)

text \<open>
  Claim C3. A synapse whose block is not the last one the miner has seen empties the
  set of nonces and sets \<open>still_trying\<close>, and the request is served from that state:
  its first draw is accepted. A block that is not the last one the validator has seen
  sets \<open>nonce_not_found\<close>, draws a new nonce and stores its digest value, and the
  miners are queried from that state.
\<close>

theorem round_change_resets:
  "(Some (block_id syn) \<noteq> last_block_id m \<longrightarrow>
      reset_round m syn =
        m\<lparr>last_block_id := Some (block_id syn), still_trying := True, nonces := {}\<rparr> \<and>
      Miner_forward m src syn =
        Miner_forward (m\<lparr>last_block_id := Some (block_id syn), still_trying := True, nonces := {}\<rparr>)
          src syn \<and>
      Miner_forward m src syn =
        Inr (m\<lparr>last_block_id := Some (block_id syn), still_trying := True,
                nonces := {gen_nonce (src 0)}\<rparr>, rest src,
             syn\<lparr>hash := Some (be_int (sha256 (encode (gen_nonce (src 0)))))\<rparr>)) \<and>
   (last_block v \<noteq> Some (at_check blk) \<longrightarrow>
      new_block blk vsrc v =
        Inr (v\<lparr>nonce_not_found := True, nonce := be_int (sha256 (encode (gen_nonce (vsrc 0)))),
               last_block := Some (at_store blk)\<rparr>, rest vsrc) \<and>
      Validator_forward env blk vsrc v =
        (let (v', sent) =
               forward env (at_query blk)
                 (v\<lparr>nonce_not_found := True,
                    nonce := be_int (sha256 (encode (gen_nonce (vsrc 0)))),
                    last_block := Some (at_store blk), step := step v + 1\<rparr>)
         in Inr (v', rest vsrc, sent)))"
proof (intro conjI impI)
  assume new: "Some (block_id syn) \<noteq> last_block_id m"
  then show r: "reset_round m syn =
      m\<lparr>last_block_id := Some (block_id syn), still_trying := True, nonces := {}\<rparr>"
    by (rule reset_round_new)
  show "Miner_forward m src syn =
      Miner_forward (m\<lparr>last_block_id := Some (block_id syn), still_trying := True, nonces := {}\<rparr>)
        src syn"
    using Miner_forward_reset [of m syn src] by (simp only: r)
  from new show "Miner_forward m src syn =
      Inr (m\<lparr>last_block_id := Some (block_id syn), still_trying := True,
              nonces := {gen_nonce (src 0)}\<rparr>, rest src,
           syn\<lparr>hash := Some (be_int (sha256 (encode (gen_nonce (src 0)))))\<rparr>)"
    by (rule Miner_forward_new_round)
next
  assume new: "last_block v \<noteq> Some (at_check blk)"
  then show "new_block blk vsrc v =
      Inr (v\<lparr>nonce_not_found := True, nonce := be_int (sha256 (encode (gen_nonce (vsrc 0)))),
             last_block := Some (at_store blk)\<rparr>, rest vsrc)"
    by (rule new_block_new)
  from new show "Validator_forward env blk vsrc v =
      (let (v', sent) =
             forward env (at_query blk)
               (v\<lparr>nonce_not_found := True,
                  nonce := be_int (sha256 (encode (gen_nonce (vsrc 0)))),
                  last_block := Some (at_store blk), step := step v + 1\<rparr>)
       in Inr (v', rest vsrc, sent))"
    by (simp add: Validator_forward_def new_block_new)
qed

text \<open>
  Claim C4. With \<open>nonce_not_found\<close> false and the block unchanged, a forward pass of
  the validator sends no challenge and changes nothing, and so does every sequence of
  passes in which the block stays the same.
\<close>

theorem found_round_no_query:
  assumes "\<not> nonce_not_found v" and "last_block v = Some b"
  shows "(\<forall>blk. at_check blk = b \<longrightarrow> Validator_forward env blk src v = Inr (v, src, [])) \<and>
         (\<forall>blks. (\<forall>blk\<in>set blks. at_check blk = b) \<longrightarrow>
            Validator_run env blks src v = Inr (v, src, []))"
proof (intro conjI allI impI)
  fix blk :: block_reads assume "at_check blk = b"
  with assms show "Validator_forward env blk src v = Inr (v, src, [])"
    by (simp add: Validator_forward_found)
next
  fix blks :: "block_reads list" assume "\<forall>blk\<in>set blks. at_check blk = b"
  then show "Validator_run env blks src v = Inr (v, src, [])"
  proof (induction blks)
    case Nil
    show ?case by simp
  next
    case (Cons blk blks)
    then have "Validator_forward env blk src v = Inr (v, src, [])"
      using assms by (simp add: Validator_forward_found)
    with Cons show ?case by simp
  qed
qed

text \<open>
  Claim C5. The miner and the validator both compute \<open>int(gen_hash(c), 16)\<close>, the
  integer that the 32 bytes of the hash are in big-endian order: when the miner
  accepts the candidate that the validator has drawn, the value in its answer is the
  validator's target.
\<close>

theorem digest_encoding_agrees:
  assumes "still_trying (reset_round m syn)"
    and "search (reset_round m syn) src = (Some c, src')"
    and "last_block v \<noteq> Some (at_check blk)"
    and "gen_nonce (vsrc 0) = c"
  shows "\<exists>m' syn' v'. Miner_forward m src syn = Inr (m', src', syn') \<and>
           new_block blk vsrc v = Inr (v', rest vsrc) \<and>
           hash syn' = Some (nonce v') \<and>
           py_int16 (gen_hash c) = Inr (nonce v') \<and>
           nonce v' = be_int (sha256 (encode c))"
proof -
  let ?d = "be_int (sha256 (encode c))"
  have "Miner_forward m src syn =
      Inr ((reset_round m syn)\<lparr>nonces := insert c (nonces (reset_round m syn))\<rparr>, src',
           syn\<lparr>hash := Some ?d\<rparr>)"
    using assms(1,2) by (rule Miner_forward_found)
  moreover have "new_block blk vsrc v =
      Inr (v\<lparr>nonce_not_found := True, nonce := ?d, last_block := Some (at_store blk)\<rparr>, rest vsrc)"
    using new_block_new [OF assms(3), of vsrc] by (simp add: assms(4))
  moreover have "py_int16 (gen_hash c) = Inr ?d" by (rule digest_value)
  ultimately show ?thesis by simp
qed

text \<open>
  Claim C6, as amended. A synapse whose block is older than the one the miner tracks
  is served as a new round: the miner tracks that block, empties the set of nonces,
  sets \<open>still_trying\<close>, and answers with the digest value of its first draw. No
  exception is raised.
\<close>

theorem stale_round_restarts:
  assumes "last_block_id m = Some b" and "block_id syn < b"
  shows "Miner_forward m src syn =
           Inr (m\<lparr>last_block_id := Some (block_id syn), still_trying := True,
                   nonces := {gen_nonce (src 0)}\<rparr>, rest src,
                syn\<lparr>hash := Some (be_int (sha256 (encode (gen_nonce (src 0)))))\<rparr>)"
proof -
  from assms have "Some (block_id syn) \<noteq> last_block_id m" by simp
  then show ?thesis by (rule Miner_forward_new_round)
qed

text \<open>
  Claim C2. Along the requests of one round the accepted nonces are pairwise
  different and none was in the set at the start of the round; the set at the end is
  the one at the start and the accepted nonces. In each request, an accepted nonce is
  not in the set before it is added, and the answer is its digest value. (\<open>nonces\<close>
  is a set, as \<open>self.nonces\<close> is: that the accepted nonces are pairwise different and
  new is what having no duplicate means for the requests of a round.)
\<close>

theorem tried_set_no_duplicates:
  assumes "\<forall>x\<in>set ss. block_id x = block_id s"
  shows "(\<exists>m' src' out. Miner_run m src (s # ss) = Inr (m', src', out) \<and>
            distinct (guesses m src (s # ss)) \<and>
            set (guesses m src (s # ss)) \<inter> nonces (reset_round m s) = {} \<and>
            nonces m' = nonces (reset_round m s) \<union> set (guesses m src (s # ss))) \<and>
         (\<exists>m1 src1.
            (guess m src s = None \<and> nonces m1 = nonces (reset_round m s) \<and>
             Miner_forward m src s = Inr (m1, src1, s)) \<or>
            (\<exists>c. guess m src s = Some c \<and> c \<notin> nonces (reset_round m s) \<and>
               nonces m1 = insert c (nonces (reset_round m s)) \<and>
               Miner_forward m src s =
                 Inr (m1, src1, s\<lparr>hash := Some (be_int (sha256 (encode c)))\<rparr>)))"
proof
  have lb: "last_block_id (reset_round m s) = Some (block_id s)" by (rule last_block_id_reset)
  have all: "\<forall>x\<in>set (s # ss). block_id x = block_id s" using assms by simp
  from guesses_round [OF lb all, of src]
  show "\<exists>m' src' out. Miner_run m src (s # ss) = Inr (m', src', out) \<and>
          distinct (guesses m src (s # ss)) \<and>
          set (guesses m src (s # ss)) \<inter> nonces (reset_round m s) = {} \<and>
          nonces m' = nonces (reset_round m s) \<union> set (guesses m src (s # ss))"
    by (simp only: Miner_run_reset guesses_reset)
next
  show "\<exists>m1 src1.
          (guess m src s = None \<and> nonces m1 = nonces (reset_round m s) \<and>
           Miner_forward m src s = Inr (m1, src1, s)) \<or>
          (\<exists>c. guess m src s = Some c \<and> c \<notin> nonces (reset_round m s) \<and>
             nonces m1 = insert c (nonces (reset_round m s)) \<and>
             Miner_forward m src s =
               Inr (m1, src1, s\<lparr>hash := Some (be_int (sha256 (encode c)))\<rparr>))"
    by (rule Miner_forward_step)
qed

subsection \<open>Runs of the miner\<close>

lemma gen_nonce_0: "gen_nonce 0 = ''0''" by code_simp
lemma gen_nonce_1: "gen_nonce 1 = ''1''" by code_simp
lemma gen_nonce_2: "gen_nonce 2 = ''2''" by code_simp

lemma target_7:
  "be_int (sha256 (encode ''7'')) =
     54734117258892461880478870895348100103198302433611928089023761078319507514449"
  using digest_value [of "''7''"] digest_value_7 by simp

lemma always_apply: "always e i = e"
  by (simp add: always_def)

theorem miner_search_exhausts_witness:
  "still_trying (reset_round
     \<lparr>nonces = {''4''}, last_block_id = Some 5, extra_attempts = 2, still_trying = True\<rparr>
     \<lparr>block_id = 5, hash = None, dendrite_hotkey = ''validator''\<rparr>) \<and>
   list_all (\<lambda>i. gen_nonce (always 4 i) \<in> {''4''}) [0, 1, 2, 3] \<and>
   Miner_forward
     \<lparr>nonces = {''4''}, last_block_id = Some 5, extra_attempts = 2, still_trying = True\<rparr>
     (always 4) \<lparr>block_id = 5, hash = None, dendrite_hotkey = ''validator''\<rparr> =
   Inr (\<lparr>nonces = {''4''}, last_block_id = Some 5, extra_attempts = 2, still_trying = False\<rparr>,
        always 4, \<lparr>block_id = 5, hash = None, dendrite_hotkey = ''validator''\<rparr>) \<and>
   Miner_run
     \<lparr>nonces = {''4''}, last_block_id = Some 5, extra_attempts = 2, still_trying = False\<rparr>
     (always 9)
     [\<lparr>block_id = 5, hash = None, dendrite_hotkey = ''validator''\<rparr>,
      \<lparr>block_id = 5, hash = None, dendrite_hotkey = ''other''\<rparr>] =
   Inr (\<lparr>nonces = {''4''}, last_block_id = Some 5, extra_attempts = 2, still_trying = False\<rparr>,
        always 9,
        [\<lparr>block_id = 5, hash = None, dendrite_hotkey = ''validator''\<rparr>,
         \<lparr>block_id = 5, hash = None, dendrite_hotkey = ''other''\<rparr>])"
proof -
  let ?m = "\<lparr>nonces = {''4''}, last_block_id = Some 5, extra_attempts = 2, still_trying = True\<rparr>"
  let ?y = "\<lparr>block_id = 5, hash = None, dendrite_hotkey = ''validator''\<rparr>"
  let ?ss = "[?y, \<lparr>block_id = 5, hash = None, dendrite_hotkey = ''other''\<rparr>]"
  have r: "reset_round ?m ?y = ?m" by (simp add: reset_round_def)
  have h1: "still_trying (reset_round ?m ?y)" by (simp add: r)
  have h2: "0 \<le> extra_attempts ?m" by simp
  have d: "\<forall>i \<le> card (nonces (reset_round ?m ?y)) + nat (extra_attempts ?m).
             gen_nonce (always 4 i) \<in> nonces (reset_round ?m ?y)"
    by (simp add: r always_apply gen_nonce_4)
  have same: "\<forall>s\<in>set ?ss. block_id s = block_id ?y" by simp
  from miner_search_exhausts [OF h1 h2, of "always 4"] d same
  have "Miner_forward ?m (always 4) ?y =
          Inr (?m\<lparr>still_trying := False\<rparr>,
               shift (card (nonces ?m) + nat (extra_attempts ?m) + 2) (always 4), ?y)"
    and "Miner_run (?m\<lparr>still_trying := False\<rparr>) (always 9) ?ss =
          Inr (?m\<lparr>still_trying := False\<rparr>, always 9, ?ss)"
    by blast+
  then show ?thesis using h1 by (simp add: shift_always always_apply gen_nonce_4)
qed

theorem exhaustion_frame_witness:
  "still_trying (reset_round
     \<lparr>nonces = {''3'', ''4''}, last_block_id = Some 8, extra_attempts = 10, still_trying = True\<rparr>
     \<lparr>block_id = 8, hash = Some 1, dendrite_hotkey = ''validator''\<rparr>) \<and>
   search (reset_round
     \<lparr>nonces = {''3'', ''4''}, last_block_id = Some 8, extra_attempts = 10, still_trying = True\<rparr>
     \<lparr>block_id = 8, hash = Some 1, dendrite_hotkey = ''validator''\<rparr>) (always 4) =
     (None, always 4) \<and>
   Miner_forward
     \<lparr>nonces = {''3'', ''4''}, last_block_id = Some 8, extra_attempts = 10, still_trying = True\<rparr>
     (always 4) \<lparr>block_id = 8, hash = Some 1, dendrite_hotkey = ''validator''\<rparr> =
   Inr (\<lparr>nonces = {''3'', ''4''}, last_block_id = Some 8, extra_attempts = 10, still_trying = False\<rparr>,
        always 4, \<lparr>block_id = 8, hash = Some 1, dendrite_hotkey = ''validator''\<rparr>)"
proof -
  let ?m = "\<lparr>nonces = {''3'', ''4''}, last_block_id = Some 8, extra_attempts = 10,
              still_trying = True\<rparr>"
  let ?y = "\<lparr>block_id = 8, hash = Some 1, dendrite_hotkey = ''validator''\<rparr>"
  have r: "reset_round ?m ?y = ?m" by (simp add: reset_round_def)
  have h1: "still_trying (reset_round ?m ?y)" by (simp add: r)
  have "search ?m (always 4) = (None, shift (card (nonces ?m) + nat (extra_attempts ?m) + 2) (always 4))"
    by (rule search_gives_up) (simp_all add: always_apply gen_nonce_4)
  then have h2: "search (reset_round ?m ?y) (always 4) = (None, always 4)"
    by (simp add: r shift_always)
  from exhaustion_frame [OF h1 h2] h1 h2 show ?thesis by simp
qed

text \<open>
  Claim C6 as stated has the miner ignore a synapse of an older block. A miner that
  has given up on block 5 and receives block 4 starts a new search and answers.
\<close>

theorem stale_round_counterexample:
  "block_id \<lparr>block_id = 4, hash = None, dendrite_hotkey = ''validator''\<rparr> < 5 \<and>
   Miner_forward
     \<lparr>nonces = {''3''}, last_block_id = Some 5, extra_attempts = 10, still_trying = False\<rparr>
     (always 7) \<lparr>block_id = 4, hash = None, dendrite_hotkey = ''validator''\<rparr> =
   Inr (\<lparr>nonces = {''7''}, last_block_id = Some 4, extra_attempts = 10, still_trying = True\<rparr>,
        always 7,
        \<lparr>block_id = 4,
           hash = Some 54734117258892461880478870895348100103198302433611928089023761078319507514449,
           dendrite_hotkey = ''validator''\<rparr>) \<and>
   Miner_forward
     \<lparr>nonces = {''3''}, last_block_id = Some 5, extra_attempts = 10, still_trying = False\<rparr>
     (always 7) \<lparr>block_id = 4, hash = None, dendrite_hotkey = ''validator''\<rparr> \<noteq>
   Inr (\<lparr>nonces = {''3''}, last_block_id = Some 5, extra_attempts = 10, still_trying = False\<rparr>,
        always 7, \<lparr>block_id = 4, hash = None, dendrite_hotkey = ''validator''\<rparr>)"
  by (simp add: Miner_forward_def reset_round_def search_def redraw_fresh rest_always
      always_apply gen_nonce_7 digest_value target_7)

theorem stale_round_restarts_witness:
  "last_block_id
     \<lparr>nonces = {''1'', ''2''}, last_block_id = Some 9, extra_attempts = 10, still_trying = True\<rparr> =
     Some 9 \<and>
   block_id \<lparr>block_id = 2, hash = None, dendrite_hotkey = ''validator''\<rparr> < 9 \<and>
   Miner_forward
     \<lparr>nonces = {''1'', ''2''}, last_block_id = Some 9, extra_attempts = 10, still_trying = True\<rparr>
     (always 4) \<lparr>block_id = 2, hash = None, dendrite_hotkey = ''validator''\<rparr> =
   Inr (\<lparr>nonces = {''4''}, last_block_id = Some 2, extra_attempts = 10, still_trying = True\<rparr>,
        always 4,
        \<lparr>block_id = 2, hash = Some (be_int (sha256 (encode ''4''))),
           dendrite_hotkey = ''validator''\<rparr>)"
proof -
  let ?m = "\<lparr>nonces = {''1'', ''2''}, last_block_id = Some 9, extra_attempts = 10,
              still_trying = True\<rparr>"
  let ?y = "\<lparr>block_id = 2, hash = None, dendrite_hotkey = ''validator''\<rparr>"
  have h1: "last_block_id ?m = Some 9" by simp
  have h2: "block_id ?y < 9" by simp
  from stale_round_restarts [OF h1 h2, of "always 4"] show ?thesis
    by (simp add: always_apply gen_nonce_4 rest_always)
qed

lemma redraw_again:
  "cur \<in> tried \<Longrightarrow> a + 1 \<le> int (card tried) + extra \<Longrightarrow>
   redraw tried extra src cur a = redraw tried extra (rest src) (gen_nonce (src 0)) (a + 1)"
  by (subst redraw.simps) simp

lemma gen_nonce_Suc_0: "gen_nonce (Suc 0) = ''1''"
  using gen_nonce_1 by simp

lemma gen_nonce_Suc_Suc_0: "gen_nonce (Suc (Suc 0)) = ''2''"
  using gen_nonce_2 by (simp add: numeral_2_eq_2)

theorem tried_set_no_duplicates_witness:
  "list_all (\<lambda>x. block_id x = 5)
     [\<lparr>block_id = 5, hash = None, dendrite_hotkey = ''validator''\<rparr>,
      \<lparr>block_id = 5, hash = None, dendrite_hotkey = ''validator''\<rparr>] \<and>
   guesses Miner_init (\<lambda>i. i div 2)
     [\<lparr>block_id = 5, hash = None, dendrite_hotkey = ''validator''\<rparr>,
      \<lparr>block_id = 5, hash = None, dendrite_hotkey = ''validator''\<rparr>,
      \<lparr>block_id = 5, hash = None, dendrite_hotkey = ''validator''\<rparr>] = [''0'', ''1'', ''2''] \<and>
   distinct (guesses Miner_init (\<lambda>i. i div 2)
     [\<lparr>block_id = 5, hash = None, dendrite_hotkey = ''validator''\<rparr>,
      \<lparr>block_id = 5, hash = None, dendrite_hotkey = ''validator''\<rparr>,
      \<lparr>block_id = 5, hash = None, dendrite_hotkey = ''validator''\<rparr>])"
proof -
  let ?y = "\<lparr>block_id = 5, hash = None, dendrite_hotkey = ''validator''\<rparr>"
  have h: "\<forall>x\<in>set [?y, ?y]. block_id x = block_id ?y" by simp
  have d: "distinct (guesses Miner_init (\<lambda>i. i div 2) [?y, ?y, ?y])"
    using tried_set_no_duplicates [OF h, of Miner_init "\<lambda>i. i div 2"] by blast
  have g: "guesses Miner_init (\<lambda>i. i div 2) [?y, ?y, ?y] = [''0'', ''1'', ''2'']"
    by (simp add: Miner_init_def Miner_forward_def guess_def reset_round_def search_def
        redraw_again redraw_fresh rest_def digest_value gen_nonce_0 gen_nonce_Suc_0 gen_nonce_Suc_Suc_0)
  from d g show ?thesis by simp
qed

subsection \<open>Runs of the validator and of both neurons\<close>

text \<open>
  A miner that had given up on block 5 and a validator that had found the nonce of
  block 5, at block 6; a validator at rest in block 5; and a miner that accepts the
  candidate 7 which the validator has drawn.
\<close>

theorem round_change_resets_witness:
  "Some (block_id \<lparr>block_id = 6, hash = None, dendrite_hotkey = ''validator''\<rparr>) \<noteq>
     last_block_id
       \<lparr>nonces = {''3'', ''7''}, last_block_id = Some 5, extra_attempts = 10, still_trying = False\<rparr> \<and>
   Miner_forward
     \<lparr>nonces = {''3'', ''7''}, last_block_id = Some 5, extra_attempts = 10, still_trying = False\<rparr>
     (always 7) \<lparr>block_id = 6, hash = None, dendrite_hotkey = ''validator''\<rparr> =
   Inr (\<lparr>nonces = {''7''}, last_block_id = Some 6, extra_attempts = 10, still_trying = True\<rparr>,
        always 7,
        \<lparr>block_id = 6,
           hash = Some 54734117258892461880478870895348100103198302433611928089023761078319507514449,
           dendrite_hotkey = ''validator''\<rparr>) \<and>
   last_block \<lparr>nonce_not_found = False, nonce = 1, last_block = Some 5, step = 3, world = ()\<rparr> \<noteq>
     Some (at_check \<lparr>at_check = 6, at_store = 6, at_log = 6, at_query = 6\<rparr>) \<and>
   Validator_forward
     \<lparr>get_random_uids = (\<lambda>v. [0, 1]), dendrite = (\<lambda>v uids y. map (\<lambda>u. None) uids),
        get_rewards = (\<lambda>v rs. ((), v)), update_scores = (\<lambda>r uids v. v)\<rparr>
     \<lparr>at_check = 6, at_store = 6, at_log = 6, at_query = 6\<rparr> (always 7)
     \<lparr>nonce_not_found = False, nonce = 1, last_block = Some 5, step = 3, world = ()\<rparr> =
   Inr (\<lparr>nonce_not_found = True,
          nonce = 54734117258892461880478870895348100103198302433611928089023761078319507514449,
          last_block = Some 6, step = 4, world = ()\<rparr>,
        always 7,
        [(0, \<lparr>block_id = 6, hash = None, dendrite_hotkey = []\<rparr>),
         (1, \<lparr>block_id = 6, hash = None, dendrite_hotkey = []\<rparr>)])"
proof -
  let ?m = "\<lparr>nonces = {''3'', ''7''}, last_block_id = Some 5, extra_attempts = 10,
              still_trying = False\<rparr>"
  let ?y = "\<lparr>block_id = 6, hash = None, dendrite_hotkey = ''validator''\<rparr>"
  let ?v = "\<lparr>nonce_not_found = False, nonce = 1, last_block = Some 5, step = 3, world = ()\<rparr>"
  let ?b = "\<lparr>at_check = 6, at_store = 6, at_log = 6, at_query = 6\<rparr>"
  let ?env = "\<lparr>get_random_uids = (\<lambda>v::unit validator. [0, 1]),
                dendrite = (\<lambda>(v::unit validator) uids (y::synapse). map (\<lambda>u. None) uids),
                get_rewards = (\<lambda>(v::unit validator) rs. ((), v)),
                update_scores = (\<lambda>(r::unit) uids (v::unit validator). v)\<rparr>"
  have h1: "Some (block_id ?y) \<noteq> last_block_id ?m" by simp
  have h2: "last_block ?v \<noteq> Some (at_check ?b)" by simp
  from round_change_resets [of ?y ?m "always 7" ?v ?b "always 7" ?env] h1 h2
  have a: "Miner_forward ?m (always 7) ?y =
        Inr (?m\<lparr>last_block_id := Some (block_id ?y), still_trying := True,
                nonces := {gen_nonce (always 7 0)}\<rparr>, rest (always 7),
             ?y\<lparr>hash := Some (be_int (sha256 (encode (gen_nonce (always 7 0)))))\<rparr>)"
    and b: "Validator_forward ?env ?b (always 7) ?v =
        (let (v', sent) =
               forward ?env (at_query ?b)
                 (?v\<lparr>nonce_not_found := True,
                    nonce := be_int (sha256 (encode (gen_nonce (always 7 0)))),
                    last_block := Some (at_store ?b), step := step ?v + 1\<rparr>)
         in Inr (v', rest (always 7), sent))"
    by blast+
  from a have a': "Miner_forward ?m (always 7) ?y =
      Inr (\<lparr>nonces = {''7''}, last_block_id = Some 6, extra_attempts = 10, still_trying = True\<rparr>,
        always 7,
        \<lparr>block_id = 6,
           hash = Some 54734117258892461880478870895348100103198302433611928089023761078319507514449,
           dendrite_hotkey = ''validator''\<rparr>)"
    by (simp add: always_apply gen_nonce_7 target_7 rest_always)
  from b have b': "Validator_forward ?env ?b (always 7) ?v =
      Inr (\<lparr>nonce_not_found = True,
          nonce = 54734117258892461880478870895348100103198302433611928089023761078319507514449,
          last_block = Some 6, step = 4, world = ()\<rparr>,
        always 7,
        [(0, \<lparr>block_id = 6, hash = None, dendrite_hotkey = []\<rparr>),
         (1, \<lparr>block_id = 6, hash = None, dendrite_hotkey = []\<rparr>)])"
    by (simp add: always_apply gen_nonce_7 target_7 rest_always forward_def)
  from h1 h2 a' b' show ?thesis by (intro conjI)
qed

theorem found_round_no_query_witness:
  "\<not> nonce_not_found
       \<lparr>nonce_not_found = False, nonce = 1, last_block = Some 5, step = 3, world = ()\<rparr> \<and>
   Validator_forward
     \<lparr>get_random_uids = (\<lambda>v. [0, 1]), dendrite = (\<lambda>v uids y. map (\<lambda>u. None) uids),
        get_rewards = (\<lambda>v rs. ((), v)), update_scores = (\<lambda>r uids v. v)\<rparr>
     \<lparr>at_check = 5, at_store = 5, at_log = 5, at_query = 6\<rparr> (always 7)
     \<lparr>nonce_not_found = False, nonce = 1, last_block = Some 5, step = 3, world = ()\<rparr> =
   Inr (\<lparr>nonce_not_found = False, nonce = 1, last_block = Some 5, step = 3, world = ()\<rparr>,
        always 7, []) \<and>
   Validator_run
     \<lparr>get_random_uids = (\<lambda>v. [0, 1]), dendrite = (\<lambda>v uids y. map (\<lambda>u. None) uids),
        get_rewards = (\<lambda>v rs. ((), v)), update_scores = (\<lambda>r uids v. v)\<rparr>
     [\<lparr>at_check = 5, at_store = 5, at_log = 5, at_query = 5\<rparr>,
      \<lparr>at_check = 5, at_store = 6, at_log = 6, at_query = 6\<rparr>] (always 7)
     \<lparr>nonce_not_found = False, nonce = 1, last_block = Some 5, step = 3, world = ()\<rparr> =
   Inr (\<lparr>nonce_not_found = False, nonce = 1, last_block = Some 5, step = 3, world = ()\<rparr>,
        always 7, [])"
proof -
  let ?v = "\<lparr>nonce_not_found = False, nonce = 1, last_block = Some 5, step = 3, world = ()\<rparr>"
  let ?env = "\<lparr>get_random_uids = (\<lambda>v::unit validator. [0, 1]),
                dendrite = (\<lambda>(v::unit validator) uids (y::synapse). map (\<lambda>u. None) uids),
                get_rewards = (\<lambda>(v::unit validator) rs. ((), v)),
                update_scores = (\<lambda>(r::unit) uids (v::unit validator). v)\<rparr>"
  let ?blks = "[\<lparr>at_check = 5, at_store = 5, at_log = 5, at_query = 5\<rparr>,
      \<lparr>at_check = 5, at_store = 6, at_log = 6, at_query = 6\<rparr>]"
  have h1: "\<not> nonce_not_found ?v" by simp
  have h2: "last_block ?v = Some 5" by simp
  have c: "at_check \<lparr>at_check = 5, at_store = 5, at_log = 5, at_query = 6\<rparr> = 5" by simp
  have cs: "\<forall>blk\<in>set ?blks. at_check blk = 5" by simp
  from found_round_no_query [OF h1 h2, of ?env "always 7"] c cs
  have "Validator_forward ?env \<lparr>at_check = 5, at_store = 5, at_log = 5, at_query = 6\<rparr>
          (always 7) ?v = Inr (?v, always 7, [])"
    and "Validator_run ?env ?blks (always 7) ?v = Inr (?v, always 7, [])"
    by blast+
  with h1 show ?thesis by (intro conjI)
qed

theorem digest_encoding_agrees_witness:
  "still_trying (reset_round Miner_init
     \<lparr>block_id = 5, hash = None, dendrite_hotkey = ''validator''\<rparr>) \<and>
   search (reset_round Miner_init
     \<lparr>block_id = 5, hash = None, dendrite_hotkey = ''validator''\<rparr>) (always 7) =
     (Some ''7'', always 7) \<and>
   gen_nonce (always 7 0) = ''7'' \<and>
   Miner_forward Miner_init (always 7)
     \<lparr>block_id = 5, hash = None, dendrite_hotkey = ''validator''\<rparr> =
   Inr (\<lparr>nonces = {''7''}, last_block_id = Some 5, extra_attempts = 10, still_trying = True\<rparr>,
        always 7,
        \<lparr>block_id = 5,
           hash = Some 54734117258892461880478870895348100103198302433611928089023761078319507514449,
           dendrite_hotkey = ''validator''\<rparr>) \<and>
   new_block \<lparr>at_check = 5, at_store = 5, at_log = 5, at_query = 5\<rparr> (always 7)
     \<lparr>nonce_not_found = True, nonce = 0, last_block = None, step = 0, world = ()\<rparr> =
   Inr (\<lparr>nonce_not_found = True,
          nonce = 54734117258892461880478870895348100103198302433611928089023761078319507514449,
          last_block = Some 5, step = 0, world = ()\<rparr>, always 7)"
proof -
  let ?y = "\<lparr>block_id = 5, hash = None, dendrite_hotkey = ''validator''\<rparr>"
  let ?v = "\<lparr>nonce_not_found = True, nonce = 0, last_block = None, step = 0, world = ()\<rparr>"
  let ?b = "\<lparr>at_check = 5, at_store = 5, at_log = 5, at_query = 5\<rparr>"
  have r: "reset_round Miner_init ?y =
      \<lparr>nonces = {}, last_block_id = Some 5, extra_attempts = 10, still_trying = True\<rparr>"
    by (simp add: reset_round_def Miner_init_def)
  have h1: "still_trying (reset_round Miner_init ?y)" by (simp add: r)
  have h2: "search (reset_round Miner_init ?y) (always 7) = (Some ''7'', always 7)"
    by (simp add: r search_empty always_apply gen_nonce_7 rest_always)
  have h3: "last_block ?v \<noteq> Some (at_check ?b)" by simp
  have h4: "gen_nonce (always 7 0) = ''7''" by (simp add: always_apply gen_nonce_7)
  from digest_encoding_agrees [where vsrc = "always 7", OF h1 h2 h3 h4] obtain m' syn' v' where
    f: "Miner_forward Miner_init (always 7) ?y = Inr (m', always 7, syn')"
    and n: "new_block ?b (always 7) ?v = Inr (v', rest (always 7))"
    and e: "hash syn' = Some (nonce v')"
    and d: "py_int16 (gen_hash ''7'') = Inr (nonce v')" by blast
  from d have t: "nonce v' =
      54734117258892461880478870895348100103198302433611928089023761078319507514449"
    by (simp add: digest_value_7)
  have f': "Miner_forward Miner_init (always 7) ?y =
      Inr (\<lparr>nonces = {''7''}, last_block_id = Some 5, extra_attempts = 10, still_trying = True\<rparr>,
        always 7, ?y\<lparr>hash := Some (be_int (sha256 (encode ''7'')))\<rparr>)"
    using Miner_forward_found [OF h1 h2] by (simp add: r)
  have n': "new_block ?b (always 7) ?v =
      Inr (?v\<lparr>nonce_not_found := True, nonce := be_int (sha256 (encode ''7'')),
            last_block := Some 5\<rparr>, always 7)"
    using new_block_new [OF h3, of "always 7"] by (simp add: always_apply gen_nonce_7 rest_always)
  from f f' e t have f'': "Miner_forward Miner_init (always 7) ?y =
      Inr (\<lparr>nonces = {''7''}, last_block_id = Some 5, extra_attempts = 10, still_trying = True\<rparr>,
        always 7,
        \<lparr>block_id = 5,
           hash = Some 54734117258892461880478870895348100103198302433611928089023761078319507514449,
           dendrite_hotkey = ''validator''\<rparr>)"
    by auto
  from n n' t have n'': "new_block ?b (always 7) ?v =
      Inr (\<lparr>nonce_not_found = True,
          nonce = 54734117258892461880478870895348100103198302433611928089023761078319507514449,
          last_block = Some 5, step = 0, world = ()\<rparr>, always 7)"
    by auto
  from h1 h2 h4 f'' n'' show ?thesis by (intro conjI)
qed

end
